theory Spec2Isabelle
  imports Main "HOL-Library.Sublist"
begin

section \<open>The named string collection of engineering-practices-demo.py\<close>

text \<open>
  The class \<open>GoodPracticesExample\<close> holds a name and a list of strings. A Python
  \<open>str\<close> is a sequence of code points; here a string is a \<^typ>\<open>string\<close> whose
  characters are read as the code points U+0000 to U+00FF, one \<^typ>\<open>char\<close> each, so
  that \<open>length\<close> counts code points as Python's \<open>len\<close> does. On these code points
  \<open>str.lower\<close> maps character by character and stays in the range, and
  \<open>str.isspace\<close> is the predicate below.
\<close>

subsection \<open>The string built-ins the class calls\<close>

text \<open>
  The code points below U+0100 that Python counts as whitespace: tab, line feed,
  vertical tab, form feed, carriage return, the separators U+001C to U+001F, space,
  U+0085 and U+00A0.
\<close>

definition isspace :: "char \<Rightarrow> bool" where
  "isspace c =
     (let n = (of_char c :: nat)
      in (9 \<le> n \<and> n \<le> 13) \<or> (28 \<le> n \<and> n \<le> 32) \<or> n = 133 \<or> n = 160)"

text \<open>\<open>s.strip()\<close>: the whitespace at the front is dropped, then the whitespace at the back.\<close>

definition strip :: "string \<Rightarrow> string" where
  "strip s = rev (dropWhile isspace (rev (dropWhile isspace s)))"

text \<open>
  \<open>s.lower()\<close>: A to Z, and U+00C0 to U+00DE without the multiplication sign U+00D7,
  move up by 32; every other code point below U+0100 stays.
\<close>

definition lower_char :: "char \<Rightarrow> char" where
  "lower_char c =
     (let n = (of_char c :: nat)
      in if (65 \<le> n \<and> n \<le> 90) \<or> (192 \<le> n \<and> n \<le> 222 \<and> n \<noteq> 215)
         then char_of (n + 32) else c)"

definition lower :: "string \<Rightarrow> string" where
  "lower s = map lower_char s"

text \<open>
  \<open>a in b\<close> on two strings holds when \<open>a\<close> occurs in \<open>b\<close> as a contiguous run:
  it is \<^term>\<open>sublist a b\<close>.
\<close>

subsection \<open>The class\<close>

record GoodPracticesExample =
  name :: string
  items :: "string list"

definition init :: "string \<Rightarrow> GoodPracticesExample" where
  "init nm = \<lparr>name = nm, items = []\<rparr>"

text \<open>
  Every method takes the object and returns its result with the object afterwards.
  \<open>not item\<close> is true of the empty string only.
\<close>

definition add_item :: "string \<Rightarrow> GoodPracticesExample \<Rightarrow> bool \<times> GoodPracticesExample" where
  "add_item item self =
     (if item = [] \<or> strip item = [] then (False, self)
      else (True, self\<lparr>items := items self @ [strip item]\<rparr>))"

definition get_items_count :: "GoodPracticesExample \<Rightarrow> int \<times> GoodPracticesExample" where
  "get_items_count self = (int (length (items self)), self)"

text \<open>The \<open>for\<close> loop of \<open>find_item\<close>, over the items that are left.\<close>

primrec find_loop :: "string \<Rightarrow> string list \<Rightarrow> string option" where
  "find_loop search_term [] = None"
| "find_loop search_term (item # rest) =
     (if sublist (lower search_term) (lower item) then Some item
      else find_loop search_term rest)"

definition find_item :: "string \<Rightarrow> GoodPracticesExample \<Rightarrow> string option \<times> GoodPracticesExample" where
  "find_item search_term self = (find_loop search_term (items self), self)"

subsection \<open>Sequences of calls\<close>

datatype call = AddItem string | GetItemsCount | FindItem string

datatype result = RetBool bool | RetInt int | RetOpt "string option"

definition exec :: "call \<Rightarrow> GoodPracticesExample \<Rightarrow> result \<times> GoodPracticesExample" where
  "exec c self =
     (case c of
        AddItem item \<Rightarrow> (case add_item item self of (b, self') \<Rightarrow> (RetBool b, self'))
      | GetItemsCount \<Rightarrow> (case get_items_count self of (n, self') \<Rightarrow> (RetInt n, self'))
      | FindItem t \<Rightarrow> (case find_item t self of (r, self') \<Rightarrow> (RetOpt r, self')))"

primrec run :: "call list \<Rightarrow> GoodPracticesExample \<Rightarrow> GoodPracticesExample" where
  "run [] self = self"
| "run (c # cs) self = run cs (snd (exec c self))"

subsection \<open>The invariant of the stored items\<close>

definition stored_ok :: "string \<Rightarrow> bool" where
  "stored_ok x = (x \<noteq> [] \<and> \<not> list_all isspace x \<and> strip x = x)"

definition invariant :: "GoodPracticesExample \<Rightarrow> bool" where
  "invariant self = list_all stored_ok (items self)"

section \<open>Trimming\<close>

lemma strip_Nil: "strip [] = []"
  by (simp add: strip_def)

lemma dropWhile_keeps: "xs = [] \<or> \<not> P (hd xs) \<Longrightarrow> dropWhile P xs = xs"
  by (cases xs) auto

lemma dropWhile_all_iff: "(\<forall>x\<in>set (dropWhile P xs). P x) \<longleftrightarrow> dropWhile P xs = []"
proof
  assume all: "\<forall>x\<in>set (dropWhile P xs). P x"
  show "dropWhile P xs = []"
  proof (rule ccontr)
    assume ne: "dropWhile P xs \<noteq> []"
    then have "\<not> P (hd (dropWhile P xs))" by (rule hd_dropWhile)
    moreover from ne have "hd (dropWhile P xs) \<in> set (dropWhile P xs)" by simp
    ultimately show False using all by blast
  qed
next
  assume e: "dropWhile P xs = []"
  show "\<forall>x\<in>set (dropWhile P xs). P x" unfolding e by simp
qed

text \<open>The trimmed string is empty exactly when every character is whitespace.\<close>

lemma strip_eq_Nil_iff: "strip s = [] \<longleftrightarrow> list_all isspace s"
proof -
  have "strip s = [] \<longleftrightarrow> (\<forall>x\<in>set (dropWhile isspace s). isspace x)"
    by (simp add: strip_def)
  also have "\<dots> \<longleftrightarrow> dropWhile isspace s = []"
    by (rule dropWhile_all_iff)
  also have "\<dots> \<longleftrightarrow> list_all isspace s"
    by (simp add: list_all_iff)
  finally show ?thesis .
qed

lemma strip_last:
  assumes "strip s \<noteq> []" shows "\<not> isspace (last (strip s))"
proof -
  let ?r = "dropWhile isspace (rev (dropWhile isspace s))"
  from assms have ne: "?r \<noteq> []" by (simp add: strip_def)
  then have "\<not> isspace (hd ?r)" by (rule hd_dropWhile)
  moreover have "last (strip s) = hd ?r" using ne by (simp add: strip_def last_rev)
  ultimately show ?thesis by simp
qed

lemma strip_suffix_part:
  "dropWhile isspace s = strip s @ rev (takeWhile isspace (rev (dropWhile isspace s)))"
proof -
  let ?d = "dropWhile isspace s"
  have "rev (rev ?d) = rev (takeWhile isspace (rev ?d) @ dropWhile isspace (rev ?d))"
    by (simp only: takeWhile_dropWhile_id)
  then show ?thesis
    by (simp only: rev_append rev_rev_ident strip_def)
qed

lemma strip_hd:
  assumes "strip s \<noteq> []" shows "\<not> isspace (hd (strip s))"
proof -
  let ?d = "dropWhile isspace s"
  have d: "?d = strip s @ rev (takeWhile isspace (rev ?d))" by (rule strip_suffix_part)
  have ne: "?d \<noteq> []"
  proof
    assume "?d = []"
    then have "strip s = []" by (simp only: strip_def rev.simps dropWhile.simps)
    with assms show False by contradiction
  qed
  then have "\<not> isspace (hd ?d)" by (rule hd_dropWhile)
  moreover have "hd ?d = hd (strip s)" using assms by (subst d) simp
  ultimately show ?thesis by simp
qed

text \<open>Trimming a trimmed string changes nothing.\<close>

lemma strip_idem: "strip (strip s) = strip s"
proof (cases "strip s = []")
  case True
  then show ?thesis by (simp add: strip_Nil)
next
  case False
  have 1: "dropWhile isspace (strip s) = strip s"
    using False strip_hd by (intro dropWhile_keeps) blast
  have "\<not> isspace (hd (rev (strip s)))"
    using False strip_last by (simp add: hd_rev)
  then have 2: "dropWhile isspace (rev (strip s)) = rev (strip s)"
    by (intro dropWhile_keeps) blast
  have "strip (strip s) = rev (dropWhile isspace (rev (dropWhile isspace (strip s))))"
    by (simp only: strip_def)
  also have "\<dots> = strip s" by (simp only: 1 2 rev_rev_ident)
  finally show ?thesis .
qed

text \<open>
  What trimming removes is whitespace, on both sides, and what it leaves neither
  starts nor ends with whitespace (\<open>strip_hd\<close>, \<open>strip_last\<close>).
\<close>

lemma strip_decomp:
  "\<exists>pre post. s = pre @ strip s @ post \<and> list_all isspace pre \<and> list_all isspace post"
proof -
  let ?d = "dropWhile isspace s"
  let ?post = "rev (takeWhile isspace (rev ?d))"
  have "s = takeWhile isspace s @ ?d" by simp
  also have "?d = strip s @ ?post" by (rule strip_suffix_part)
  finally have "s = takeWhile isspace s @ strip s @ ?post" .
  moreover have "list_all isspace (takeWhile isspace s)"
    by (auto simp: list_all_iff dest: set_takeWhileD)
  moreover have "list_all isspace ?post"
    by (auto simp: list_all_iff dest: set_takeWhileD)
  ultimately show ?thesis by blast
qed

lemma strip_stored_ok: "strip s \<noteq> [] \<Longrightarrow> stored_ok (strip s)"
  unfolding stored_ok_def using strip_eq_Nil_iff [of "strip s"] strip_idem [of s] by simp

section \<open>Adding an item\<close>

lemma add_item_cases:
  "add_item item self =
     (if strip item = [] then (False, self)
      else (True, self\<lparr>items := items self @ [strip item]\<rparr>))"
  by (auto simp: add_item_def strip_Nil)

lemma add_item_blank: "list_all isspace item \<Longrightarrow> add_item item self = (False, self)"
  by (simp add: add_item_cases strip_eq_Nil_iff)

text \<open>
  C1: \<open>add_item\<close> trims the item. When the trimmed item is empty the call returns
  \<open>False\<close> and the object is as before; otherwise it returns \<open>True\<close> and the stored
  list is the old one with the trimmed item at its end, the name untouched.
\<close>

theorem add_item_trims_and_appends:
  "add_item item self =
     (if strip item = [] then (False, self)
      else (True, \<lparr>name = name self, items = items self @ [strip item]\<rparr>))"
  by (simp add: add_item_cases)

theorem add_item_trims_and_appends_witness:
  "add_item ''  test item  '' \<lparr>name = ''test'', items = [''first'']\<rparr>
     = (True, \<lparr>name = ''test'', items = [''first'', ''test item'']\<rparr>)
   \<and> add_item [CHR 0x09, CHR 0x20, CHR 0x0A] \<lparr>name = ''test'', items = [''first'']\<rparr>
     = (False, \<lparr>name = ''test'', items = [''first'']\<rparr>)"
proof -
  have 1: "strip ''  test item  '' = ''test item''" by code_simp
  have 2: "strip [CHR 0x09, CHR 0x20, CHR 0x0A] = []" by code_simp
  show ?thesis
    using add_item_trims_and_appends [of "''  test item  ''" "\<lparr>name = ''test'', items = [''first'']\<rparr>"]
      add_item_trims_and_appends [of "[CHR 0x09, CHR 0x20, CHR 0x0A]" "\<lparr>name = ''test'', items = [''first'']\<rparr>"]
    by (simp add: 1 2)
qed

text \<open>
  C3: an item that is not empty once trimmed is accepted, and the count afterwards is
  the count before plus one.
\<close>

theorem add_item_count_plus_one:
  "strip s \<noteq> [] \<Longrightarrow>
     fst (add_item s self) = True
     \<and> fst (get_items_count (snd (add_item s self))) = fst (get_items_count self) + 1"
  by (simp add: add_item_cases get_items_count_def)

theorem add_item_count_plus_one_witness:
  "strip ''test item'' \<noteq> []
   \<and> fst (add_item ''test item'' (init ''test'')) = True
   \<and> fst (get_items_count (snd (add_item ''test item'' (init ''test''))))
       = fst (get_items_count (init ''test'')) + 1
   \<and> fst (get_items_count (snd (add_item ''test item'' (init ''test'')))) = 1"
proof -
  have h: "strip ''test item'' \<noteq> []" by code_simp
  have 0: "fst (get_items_count (init ''test'')) = 0"
    by (simp add: get_items_count_def init_def)
  show ?thesis
    using h add_item_count_plus_one [OF h, of "init ''test''"] by (simp add: 0)
qed

text \<open>
  C4: the empty string, the string of three spaces and every other string of
  whitespace only are refused with the result \<open>False\<close>; the object, its stored list and
  its count are as before. The method has no other outcome: it returns a boolean on
  every string.
\<close>

theorem add_item_rejects_blank:
  "add_item '''' self = (False, self)
   \<and> add_item ''   '' self = (False, self)
   \<and> (list_all isspace item \<longrightarrow>
        add_item item self = (False, self)
        \<and> items (snd (add_item item self)) = items self
        \<and> fst (get_items_count (snd (add_item item self))) = fst (get_items_count self))"
proof -
  have "list_all isspace ''''" by simp
  then have 1: "add_item '''' self = (False, self)" by (rule add_item_blank)
  have "list_all isspace ''   ''" by (simp add: isspace_def)
  then have 2: "add_item ''   '' self = (False, self)" by (rule add_item_blank)
  show ?thesis using 1 2 by (simp add: add_item_blank)
qed

theorem add_item_rejects_blank_witness:
  "list_all isspace [CHR 0x20, CHR 0x09, CHR 0x0A, CHR 0xA0]
   \<and> add_item [CHR 0x20, CHR 0x09, CHR 0x0A, CHR 0xA0] \<lparr>name = ''test'', items = [''kept'']\<rparr>
       = (False, \<lparr>name = ''test'', items = [''kept'']\<rparr>)
   \<and> fst (get_items_count (snd (add_item [CHR 0x20, CHR 0x09, CHR 0x0A, CHR 0xA0]
        \<lparr>name = ''test'', items = [''kept'']\<rparr>))) = 1"
proof -
  have h: "list_all isspace [CHR 0x20, CHR 0x09, CHR 0x0A, CHR 0xA0]" by code_simp
  have c: "fst (get_items_count \<lparr>name = ''test'', items = [''kept'']\<rparr>) = 1"
    by (simp add: get_items_count_def)
  show ?thesis
    using h add_item_rejects_blank
      [of "\<lparr>name = ''test'', items = [''kept'']\<rparr>" "[CHR 0x20, CHR 0x09, CHR 0x0A, CHR 0xA0]"]
    by (simp add: c)
qed

section \<open>Searching\<close>

lemma find_loop_find:
  "find_loop t xs = List.find (\<lambda>x. sublist (lower t) (lower x)) xs"
  by (induction xs) simp_all

lemma find_loop_None_iff:
  "find_loop t xs = None \<longleftrightarrow> (\<forall>x\<in>set xs. \<not> sublist (lower t) (lower x))"
  by (auto simp: find_loop_find find_None_iff)

lemma find_loop_first:
  assumes "\<exists>x\<in>set xs. sublist (lower t) (lower x)"
  shows "\<exists>i<length xs. find_loop t xs = Some (xs ! i)
           \<and> sublist (lower t) (lower (xs ! i))
           \<and> (\<forall>j<i. \<not> sublist (lower t) (lower (xs ! j)))"
proof -
  from assms have "find_loop t xs \<noteq> None" by (simp add: find_loop_None_iff)
  then obtain x where x: "List.find (\<lambda>x. sublist (lower t) (lower x)) xs = Some x"
    by (auto simp: find_loop_find)
  then obtain i where "i < length xs" "sublist (lower t) (lower (xs ! i))" "x = xs ! i"
    "\<forall>j<i. \<not> sublist (lower t) (lower (xs ! j))"
    unfolding find_Some_iff by blast
  with x show ?thesis by (auto simp: find_loop_find)
qed

lemma find_loop_empty_term: "find_loop [] xs = (case xs of [] \<Rightarrow> None | x # _ \<Rightarrow> Some x)"
  by (cases xs) (simp_all add: lower_def)

text \<open>
  C5: when some stored item matches the term (the lowercased term occurs in the
  lowercased item), \<open>find_item\<close> returns the matching item of the least index: the
  earliest inserted one, since \<open>add_item\<close> appends at the end.
\<close>

theorem find_item_first_match:
  "\<exists>x\<in>set (items self). sublist (lower t) (lower x) \<Longrightarrow>
     \<exists>i<length (items self).
        fst (find_item t self) = Some (items self ! i)
        \<and> sublist (lower t) (lower (items self ! i))
        \<and> (\<forall>j<i. \<not> sublist (lower t) (lower (items self ! j)))"
  by (simp add: find_item_def find_loop_first)

theorem find_item_first_match_witness:
  "(\<exists>x\<in>set (items \<lparr>name = ''test'', items = [''Banana'', ''Apple pie'', ''pineapple'']\<rparr>).
       sublist (lower ''APPLE'') (lower x))
   \<and> fst (find_item ''APPLE'' \<lparr>name = ''test'', items = [''Banana'', ''Apple pie'', ''pineapple'']\<rparr>)
       = Some ''Apple pie''"
proof -
  let ?s = "\<lparr>name = ''test'', items = [''Banana'', ''Apple pie'', ''pineapple'']\<rparr>"
  have h: "\<exists>x\<in>set (items ?s). sublist (lower ''APPLE'') (lower x)" by code_simp
  have n0: "\<not> sublist (lower ''APPLE'') (lower ''Banana'')" by code_simp
  have n1: "sublist (lower ''APPLE'') (lower ''Apple pie'')" by code_simp
  from find_item_first_match [OF h] obtain i where
    r: "fst (find_item ''APPLE'' ?s) = Some (items ?s ! i)" and
    m: "sublist (lower ''APPLE'') (lower (items ?s ! i))" and
    f: "\<forall>j<i. \<not> sublist (lower ''APPLE'') (lower (items ?s ! j))"
    by blast
  have "i \<noteq> 0"
  proof
    assume "i = 0"
    with m n0 show False by simp
  qed
  moreover have "\<not> 1 < i"
  proof
    assume "1 < i"
    with f have "\<not> sublist (lower ''APPLE'') (lower (items ?s ! 1))" by blast
    with n1 show False by simp
  qed
  ultimately have "i = 1" by arith
  with r h show ?thesis by simp
qed

text \<open>
  C6: on an empty collection, and when no stored item matches the term, \<open>find_item\<close>
  returns \<open>None\<close>, which is no string: it differs from \<open>Some x\<close> for every \<open>x\<close>.
\<close>

theorem find_item_not_found:
  "items self = [] \<or> (\<forall>x\<in>set (items self). \<not> sublist (lower t) (lower x)) \<Longrightarrow>
     fst (find_item t self) = None \<and> (\<forall>x. fst (find_item t self) \<noteq> Some x)"
  by (auto simp: find_item_def find_loop_None_iff)

theorem find_item_not_found_witness:
  "items (init ''test'') = []
   \<and> fst (find_item ''missing'' (init ''test'')) = None
   \<and> fst (find_item ''missing'' \<lparr>name = ''test'', items = [''hello world'', ''miss'']\<rparr>) = None"
proof -
  have e: "items (init ''test'') = []" by (simp add: init_def)
  let ?s = "\<lparr>name = ''test'', items = [''hello world'', ''miss'']\<rparr>"
  have n: "\<forall>x\<in>set (items ?s). \<not> sublist (lower ''missing'') (lower x)" by code_simp
  show ?thesis
    using e find_item_not_found [of "init ''test''" "''missing''"]
      n find_item_not_found [of ?s "''missing''"]
    by simp
qed

text \<open>
  C7: in a fresh collection of any name, adding \<open>hello world\<close> succeeds, and then both
  \<open>world\<close> and \<open>WORLD\<close> find \<open>hello world\<close>.
\<close>

theorem hello_world_found:
  "fst (add_item ''hello world'' (init nm)) = True
   \<and> fst (find_item ''world'' (snd (add_item ''hello world'' (init nm)))) = Some ''hello world''
   \<and> fst (find_item ''WORLD'' (snd (add_item ''hello world'' (init nm)))) = Some ''hello world''"
  by code_simp

text \<open>
  C8: \<open>find_item\<close> leaves the object as it was, name and stored list alike, and so
  does \<open>get_items_count\<close>.
\<close>

theorem find_item_no_mutation:
  "snd (find_item t self) = self
   \<and> name (snd (find_item t self)) = name self
   \<and> items (snd (find_item t self)) = items self
   \<and> snd (get_items_count self) = self"
  by (simp add: find_item_def get_items_count_def)

text \<open>
  C10: the empty term finds the first stored item of every collection that has one,
  and gives \<open>None\<close> exactly on the empty collection.
\<close>

theorem find_item_empty_term:
  "fst (find_item '''' self) = (case items self of [] \<Rightarrow> None | x # _ \<Rightarrow> Some x)
   \<and> (fst (find_item '''' self) = None) = (items self = [])"
  by (simp add: find_item_def find_loop_empty_term split: list.splits)

section \<open>Sequences of calls\<close>

lemma exec_state:
  "snd (exec c self) = (case c of AddItem item \<Rightarrow> snd (add_item item self) | _ \<Rightarrow> self)"
  by (simp add: exec_def get_items_count_def find_item_def split: call.splits prod.splits)

lemma run_append: "run (cs @ ds) self = run ds (run cs self)"
  by (induction cs arbitrary: self) simp_all

lemma invariant_init: "invariant (init nm)"
  by (simp add: invariant_def init_def)

lemma invariant_add_item: "invariant self \<Longrightarrow> invariant (snd (add_item item self))"
  by (simp add: invariant_def add_item_cases strip_stored_ok)

lemma invariant_exec: "invariant self \<Longrightarrow> invariant (snd (exec c self))"
  by (cases c) (simp_all add: exec_state invariant_add_item)

lemma invariant_run: "invariant self \<Longrightarrow> invariant (run cs self)"
  by (induction cs arbitrary: self) (simp_all add: invariant_exec)

lemma items_add_item_prefix: "prefix (items self) (items (snd (add_item item self)))"
  by (simp add: add_item_cases)

lemma items_exec_prefix: "prefix (items self) (items (snd (exec c self)))"
  by (cases c) (simp_all add: exec_state items_add_item_prefix)

lemma items_run_prefix: "prefix (items self) (items (run cs self))"
proof (induction cs arbitrary: self)
  case Nil
  show ?case by simp
next
  case (Cons c cs)
  have "prefix (items self) (items (snd (exec c self)))" by (rule items_exec_prefix)
  also have "prefix \<dots> (items (run cs (snd (exec c self))))" by (rule Cons.IH)
  finally show ?case by simp
qed

lemma count_mono: "prefix (items a) (items b) \<Longrightarrow> fst (get_items_count a) \<le> fst (get_items_count b)"
  by (simp add: get_items_count_def prefix_length_le)

text \<open>
  C2: every stored item is non-empty, is not whitespace only and is its own trimmed
  form. This holds of a fresh collection, each of the three methods keeps it, and so
  it holds after every sequence of calls.
\<close>

theorem invariant_always:
  "invariant (init nm)
   \<and> (invariant self \<longrightarrow>
        invariant (snd (add_item item self))
        \<and> invariant (snd (get_items_count self))
        \<and> invariant (snd (find_item t self))
        \<and> invariant (run cs self))
   \<and> invariant (run cs (init nm))
   \<and> list_all (\<lambda>x. x \<noteq> [] \<and> \<not> list_all isspace x \<and> strip x = x) (items (run cs (init nm)))"
proof -
  have "invariant (run cs (init nm))" by (simp add: invariant_run invariant_init)
  moreover from this
  have "list_all (\<lambda>x. x \<noteq> [] \<and> \<not> list_all isspace x \<and> strip x = x) (items (run cs (init nm)))"
    by (simp add: invariant_def list_all_iff stored_ok_def)
  ultimately show ?thesis
    by (simp add: invariant_init invariant_add_item invariant_run get_items_count_def find_item_def)
qed

theorem invariant_always_witness:
  "invariant \<lparr>name = ''test'', items = [''a b'']\<rparr>
   \<and> invariant (snd (add_item ''  x  '' \<lparr>name = ''test'', items = [''a b'']\<rparr>))
   \<and> items (snd (add_item ''  x  '' \<lparr>name = ''test'', items = [''a b'']\<rparr>)) = [''a b'', ''x'']
   \<and> invariant (run [AddItem '' hello world '', AddItem ''   '', FindItem ''WORLD'', GetItemsCount]
        (init ''test''))
   \<and> items (run [AddItem '' hello world '', AddItem ''   '', FindItem ''WORLD'', GetItemsCount]
        (init ''test'')) = [''hello world'']"
proof -
  let ?s = "\<lparr>name = ''test'', items = [''a b'']\<rparr>"
  let ?cs = "[AddItem '' hello world '', AddItem ''   '', FindItem ''WORLD'', GetItemsCount]"
  have h: "invariant ?s" by code_simp
  have 1: "items (snd (add_item ''  x  '' ?s)) = [''a b'', ''x'']" by code_simp
  have 2: "items (run ?cs (init ''test'')) = [''hello world'']" by code_simp
  show ?thesis
    using h invariant_always [of "''test''" ?s "''  x  ''" "''''" ?cs] 1 2
    by blast
qed

text \<open>
  C9: a fresh collection has count 0; no method lowers the count; along every sequence
  of calls the stored list only grows at its end, so the count after a longer sequence
  is at least the count after any of its beginnings.
\<close>

theorem count_never_decreases:
  "fst (get_items_count (init nm)) = 0
   \<and> fst (get_items_count self) \<le> fst (get_items_count (snd (add_item item self)))
   \<and> fst (get_items_count self) \<le> fst (get_items_count (snd (get_items_count self)))
   \<and> fst (get_items_count self) \<le> fst (get_items_count (snd (find_item t self)))
   \<and> prefix (items self) (items (run cs self))
   \<and> fst (get_items_count self) \<le> fst (get_items_count (run cs self))
   \<and> fst (get_items_count (run cs self)) \<le> fst (get_items_count (run (cs @ ds) self))"
proof -
  have "fst (get_items_count (init nm)) = 0" by (simp add: get_items_count_def init_def)
  moreover have "fst (get_items_count self) \<le> fst (get_items_count (snd (add_item item self)))"
    by (intro count_mono items_add_item_prefix)
  moreover have "snd (get_items_count self) = self" "snd (find_item t self) = self"
    by (simp_all add: get_items_count_def find_item_def)
  moreover have "fst (get_items_count self) \<le> fst (get_items_count (run cs self))"
    by (intro count_mono items_run_prefix)
  moreover have "fst (get_items_count (run cs self)) \<le> fst (get_items_count (run (cs @ ds) self))"
    unfolding run_append by (intro count_mono items_run_prefix)
  ultimately show ?thesis by (simp add: items_run_prefix)
qed

theorem count_never_decreases_witness:
  "fst (get_items_count (init ''test'')) = 0
   \<and> fst (get_items_count (run [AddItem ''a'', FindItem ''a''] (init ''test''))) = 1
   \<and> fst (get_items_count (run ([AddItem ''a'', FindItem ''a''] @ [AddItem '' '', GetItemsCount, AddItem ''b ''])
        (init ''test''))) = 2"
proof -
  have 1: "fst (get_items_count (run [AddItem ''a'', FindItem ''a''] (init ''test''))) = 1"
    by code_simp
  have 2: "fst (get_items_count (run ([AddItem ''a'', FindItem ''a''] @ [AddItem '' '', GetItemsCount, AddItem ''b ''])
        (init ''test''))) = 2"
    by code_simp
  show ?thesis
    using count_never_decreases [of "''test''" "init ''test''" "''a''" "''a''" "[AddItem ''a'', FindItem ''a'']"
        "[AddItem '' '', GetItemsCount, AddItem ''b '']"] 1 2
    by simp
qed

end
